theory Spec2Isabelle
  imports Complex_Main
begin

section \<open>JavaScript strings\<close>

text \<open>
  The parser of \<^verbatim>\<open>src/parser.ts\<close> works on JavaScript strings. A string is modelled as a
  \<^typ>\<open>string\<close>, each \<^typ>\<open>char\<close> standing for one code unit below 256 (the Latin-1 range,
  which contains ASCII). The string primitives below follow ECMAScript on that range.
\<close>

text \<open>
  The characters matched by \<^verbatim>\<open>\s\<close> and removed by \<^verbatim>\<open>trim()\<close>: tab, line feed, vertical tab,
  form feed, carriage return, space and the no-break space.
\<close>

definition isWhiteSpace :: "char \<Rightarrow> bool" where
  "isWhiteSpace c \<longleftrightarrow>
     c \<in> set [CHR 0x09, CHR 0x0A, CHR 0x0B, CHR 0x0C, CHR 0x0D, CHR 0x20, CHR 0xA0]"

text \<open>\<^verbatim>\<open>s.trim()\<close>\<close>

definition trim :: "string \<Rightarrow> string" where
  "trim s = rev (dropWhile isWhiteSpace (rev (dropWhile isWhiteSpace s)))"

text \<open>\<^verbatim>\<open>s.toLowerCase()\<close>: the letters A-Z and the upper-case letters of Latin-1.\<close>

definition toLowerCaseChar :: "char \<Rightarrow> char" where
  "toLowerCaseChar c =
     (let n = (of_char c :: nat)
      in if (65 \<le> n \<and> n \<le> 90) \<or> (192 \<le> n \<and> n \<le> 222 \<and> n \<noteq> 215)
         then char_of (n + 32) else c)"

definition toLowerCase :: "string \<Rightarrow> string" where
  "toLowerCase s = map toLowerCaseChar s"

text \<open>\<^verbatim>\<open>s.startsWith(k)\<close>\<close>

definition startsWith :: "string \<Rightarrow> string \<Rightarrow> bool" where
  "startsWith s k \<longleftrightarrow> take (length k) s = k"

text \<open>
  \<^verbatim>\<open>s.split(sep)\<close> for a separator of one character: every occurrence separates, and the
  result always has at least one segment.
\<close>

fun js_split :: "char \<Rightarrow> string \<Rightarrow> string list" where
  "js_split sep [] = [[]]"
| "js_split sep (c # cs) =
     (if c = sep then [] # js_split sep cs
      else (case js_split sep cs of
              [] \<Rightarrow> [[c]]
            | seg # segs \<Rightarrow> (c # seg) # segs))"

text \<open>
  Array destructuring \<^verbatim>\<open>[a, b, ...] = xs\<close> reads \<^verbatim>\<open>xs[i]\<close>, which is \<^verbatim>\<open>undefined\<close> beyond
  the end of the array.
\<close>

definition element :: "'a list \<Rightarrow> nat \<Rightarrow> 'a option" where
  "element xs i = (if i < length xs then Some (xs ! i) else None)"

text \<open>\<^verbatim>\<open>s.replace(/\s+/g, " ")\<close>: every maximal run of white space becomes one space.\<close>

function collapseWhiteSpace :: "string \<Rightarrow> string" where
  "collapseWhiteSpace [] = []"
| "collapseWhiteSpace (c # cs) =
     (if isWhiteSpace c then CHR '' '' # collapseWhiteSpace (dropWhile isWhiteSpace cs)
      else c # collapseWhiteSpace cs)"
  by pat_completeness auto
termination
  by (relation "measure length") (auto simp: le_imp_less_Suc length_dropWhile_le)

text \<open>\<^verbatim>\<open>s.indexOf(c)\<close>, which is -1 when the character does not occur.\<close>

fun indexOf :: "string \<Rightarrow> char \<Rightarrow> int" where
  "indexOf [] c = - 1"
| "indexOf (x # xs) c =
     (if x = c then 0
      else (let i = indexOf xs c in if i < 0 then - 1 else i + 1))"

text \<open>
  \<^verbatim>\<open>s.substring(a, b)\<close>: both indices are clamped to the string, and they are swapped when
  the first is the larger.
\<close>

definition substring :: "string \<Rightarrow> int \<Rightarrow> int \<Rightarrow> string" where
  "substring s a b =
     (let n = int (length s);
          a' = max 0 (min a n);
          b' = max 0 (min b n);
          lo = min a' b';
          hi = max a' b'
      in take (nat (hi - lo)) (drop (nat lo) s))"

text \<open>
  \<^verbatim>\<open>s.replace(pat, rep)\<close> for a string pattern: the first occurrence is replaced, and a
  string without the pattern is returned as it is. The replacement is always the empty
  string in the parser, so the \<^verbatim>\<open>$\<close> patterns of a replacement play no role.
\<close>

fun js_replace :: "string \<Rightarrow> string \<Rightarrow> string \<Rightarrow> string" where
  "js_replace pat rep [] = (if pat = [] then rep else [])"
| "js_replace pat rep (c # cs) =
     (if startsWith (c # cs) pat then rep @ drop (length pat) (c # cs)
      else c # js_replace pat rep cs)"

section \<open>Data model\<close>

text \<open>
  The field \<^verbatim>\<open>text\<close> of a dialogue is written \<open>text'\<close>, since \<^verbatim>\<open>text\<close> is a keyword of the
  theory language. The parser never builds a dialogue: \<^verbatim>\<open>dialogues\<close> is always empty.
\<close>

record Dialogue =
  character :: string
  emotion :: string
  text' :: string

record Choice =
  label :: string
  targetScene :: string

text \<open>The entries of the local array \<^verbatim>\<open>references\<close> of \<^verbatim>\<open>organizeSceneRefs\<close>.\<close>

record Reference =
  parent :: string
  choices :: "string list"

text \<open>An optional field is \<^verbatim>\<open>undefined\<close> when it is \<^const>\<open>None\<close>.\<close>

record Scene =
  label :: string
  nextScene :: "string option"
  previousScene :: "string option"
  isEndingScene :: bool
  dialogues :: "Dialogue list"
  choices :: "Choice list option"
  condition :: "string option"

record Character =
  name :: string
  emotions :: "string \<rightharpoonup> string"

record ParserResult =
  scenes :: "Scene list"
  characters :: "Character list"

datatype Keyword = Scene | Choice | EndingScene | Emotion | UseEmotion | Character

fun keywordText :: "Keyword \<Rightarrow> string" where
  "keywordText Scene = ''scene''"
| "keywordText Choice = ''choice''"
| "keywordText EndingScene = ''ending scene''"
| "keywordText Emotion = ''emotion''"
| "keywordText UseEmotion = ''use emotion''"
| "keywordText Character = ''character''"

text \<open>
  A thrown exception is a value: \<^verbatim>\<open>new Error(message)\<close> of the parser, or the
  \<^verbatim>\<open>TypeError\<close> that JavaScript raises when a method is called on \<^verbatim>\<open>undefined\<close>.
\<close>

datatype error = Error string | TypeError

definition ForbiddenInlineScene :: error where
  "ForbiddenInlineScene = Error ''Inline instructions are forbidden in this context (scenes)!''"

definition ForbiddenInlineCharacter :: error where
  "ForbiddenInlineCharacter =
     Error ''Inline instructions are forbidden in this context (characters)!''"

definition ChoiceOutsideScene :: error where
  "ChoiceOutsideScene = Error ''Choice must be inside a scene!''"

definition ChoiceMissingTarget :: error where
  "ChoiceMissingTarget = Error ''Choice must have a target scene!''"

definition EmotionOutsideCharacter :: error where
  "EmotionOutsideCharacter = Error ''Emotion must be inside a character!''"

definition EmotionMissingPath :: error where
  "EmotionMissingPath = Error ''An emotion declaration must have a path!''"

section \<open>Line preprocessing and keyword classification\<close>

definition removeExtraSpaces :: "string \<Rightarrow> string" where
  "removeExtraSpaces line = trim (collapseWhiteSpace line)"

definition getLines :: "string \<Rightarrow> string list" where
  "getLines script = filter (\<lambda>line. length (trim line) > 0) (js_split CHR 0x0A script)"

text \<open>
  \<^verbatim>\<open>line.match(/^(\s*)/)\<close> always matches, with the longest white-space prefix of the line;
  \<^verbatim>\<open>spaces / 4\<close> is a division of numbers, not of integers.
\<close>

definition isIndentationLevelCorrect :: "string \<Rightarrow> nat \<Rightarrow> bool" where
  "isIndentationLevelCorrect line level =
     (let spaces = length (takeWhile isWhiteSpace line)
      in spaces mod 2 = 0 \<and> (of_nat spaces :: rat) / 4 = of_nat level)"

definition hasKeyword :: "Keyword \<Rightarrow> string \<Rightarrow> nat \<Rightarrow> bool" where
  "hasKeyword keyword line level =
     (let hasKey = startsWith (trim (toLowerCase line)) (keywordText keyword)
      in if hasKey then isIndentationLevelCorrect line level else False)"

section \<open>Statement builders\<close>

text \<open>
  \<^verbatim>\<open>text.trim()\<close> raises a \<^verbatim>\<open>TypeError\<close> when the line has no colon, since the second
  segment is then \<^verbatim>\<open>undefined\<close>.
\<close>

definition hasForbiddenInline :: "string \<Rightarrow> error + bool" where
  "hasForbiddenInline line =
     (case element (js_split CHR '':'' line) 1 of
        None \<Rightarrow> Inl TypeError
      | Some textPart \<Rightarrow> Inr (length (trim textPart) > 0))"

text \<open>The result is the pair of the fields \<^verbatim>\<open>string\<close> and \<^verbatim>\<open>parameter\<close>.\<close>

definition getParameter :: "string \<Rightarrow> string \<times> string option" where
  "getParameter str =
     (if CHR ''<'' \<notin> set str then (str, None)
      else (let parameter = substring str (indexOf str CHR ''<'' + 1) (indexOf str CHR ''>'')
            in (js_replace (''<'' @ parameter @ ''>'') [] str, Some parameter)))"

definition makeScene :: "string \<Rightarrow> error + Scene" where
  "makeScene line =
     (case hasForbiddenInline line of
        Inl e \<Rightarrow> Inl e
      | Inr True \<Rightarrow> Inl ForbiddenInlineScene
      | Inr False \<Rightarrow>
          (let tokens = js_split CHR '' '' (removeExtraSpaces line)
           in case element tokens 1 of
                None \<Rightarrow> Inl TypeError
              | Some labelCondition \<Rightarrow>
                  (let (bareLabel, parameter) = getParameter (js_replace '':'' [] labelCondition)
                   in Inr \<lparr>label = bareLabel,
                           nextScene =
                             (case element tokens 3 of
                                None \<Rightarrow> None
                              | Some pointedScene \<Rightarrow>
                                  if pointedScene \<noteq> [] then Some (js_replace '':'' [] pointedScene)
                                  else None),
                           previousScene = None,
                           isEndingScene = False,
                           dialogues = [],
                           choices = None,
                           condition = parameter\<rparr>)))"

definition makeCharacter :: "string \<Rightarrow> error + Character" where
  "makeCharacter line =
     (case hasForbiddenInline line of
        Inl e \<Rightarrow> Inl e
      | Inr True \<Rightarrow> Inl ForbiddenInlineCharacter
      | Inr False \<Rightarrow>
          (case element (js_split CHR '' '' (removeExtraSpaces line)) 1 of
             None \<Rightarrow> Inl TypeError
           | Some nameToken \<Rightarrow>
               Inr \<lparr>name = js_replace '':'' [] nameToken, emotions = Map.empty\<rparr>))"

text \<open>
  \<^verbatim>\<open>addChoice\<close> mutates the open scene; the model returns the scene after the call. A
  target that is \<^verbatim>\<open>undefined\<close> or empty is falsy.
\<close>

definition addChoice :: "string \<Rightarrow> Scene option \<Rightarrow> error + Scene" where
  "addChoice line openScene =
     (case openScene of
        None \<Rightarrow> Inl ChoiceOutsideScene
      | Some scene \<Rightarrow>
          (let parts = js_split CHR '':'' line
           in case element parts 0 of
                None \<Rightarrow> Inl TypeError
              | Some instruction \<Rightarrow>
                  (case snd (getParameter instruction) of
                     None \<Rightarrow> Inl ChoiceMissingTarget
                   | Some target \<Rightarrow>
                       if target = [] then Inl ChoiceMissingTarget
                       else (case element parts 1 of
                               None \<Rightarrow> Inl TypeError
                             | Some labelPart \<Rightarrow>
                                 (let choice = \<lparr>Choice.label = trim labelPart,
                                                targetScene = target\<rparr>
                                  in Inr (scene\<lparr>choices :=
                                            (case choices scene of
                                               None \<Rightarrow> Some [choice]
                                             | Some cs \<Rightarrow> Some (cs @ [choice]))\<rparr>))))))"

text \<open>
  A property key that is \<^verbatim>\<open>undefined\<close> is the string \<^verbatim>\<open>"undefined"\<close>, and an assignment
  of a string to the key \<^verbatim>\<open>__proto__\<close> of an object literal stores nothing.
\<close>

definition propertyKey :: "string option \<Rightarrow> string" where
  "propertyKey k = (case k of None \<Rightarrow> ''undefined'' | Some s \<Rightarrow> s)"

definition setProperty :: "(string \<rightharpoonup> string) \<Rightarrow> string \<Rightarrow> string \<Rightarrow> (string \<rightharpoonup> string)" where
  "setProperty obj key v = (if key = ''__proto__'' then obj else obj(key \<mapsto> v))"

definition addEmotion :: "string \<Rightarrow> Character option \<Rightarrow> error + Character" where
  "addEmotion line openCharacter =
     (case openCharacter of
        None \<Rightarrow> Inl EmotionOutsideCharacter
      | Some c \<Rightarrow>
          (let parts = js_split CHR '':'' line
           in case element parts 0 of
                None \<Rightarrow> Inl TypeError
              | Some instruction \<Rightarrow>
                  (let emotionName = element (js_split CHR '' '' (removeExtraSpaces instruction)) 1
                   in case element parts 1 of
                        None \<Rightarrow> Inl EmotionMissingPath
                      | Some emotionPath \<Rightarrow>
                          if emotionPath = [] then Inl EmotionMissingPath
                          else Inr (c\<lparr>emotions :=
                                      setProperty (emotions c) (propertyKey emotionName)
                                        (trim emotionPath)\<rparr>))))"

section \<open>Reference reconciler\<close>

definition sceneReferences :: "Scene list \<Rightarrow> Reference list" where
  "sceneReferences scs =
     foldl (\<lambda>acc scene.
              case choices scene of
                None \<Rightarrow> acc
              | Some cs \<Rightarrow> acc @ [\<lparr>parent = label scene,
                                     Reference.choices = map targetScene cs\<rparr>])
           [] scs"

definition organizeSceneRefs :: "Scene list \<Rightarrow> Scene list" where
  "organizeSceneRefs scs =
     (let references = sceneReferences scs
      in map (\<lambda>scene.
                case find (\<lambda>ref. label scene \<in> set (Reference.choices ref)) references of
                  None \<Rightarrow> scene
                | Some reference \<Rightarrow> scene\<lparr>previousScene := Some (parent reference)\<rparr>)
             scs)"

section \<open>Accumulator\<close>

text \<open>
  The state of the loop of \<^verbatim>\<open>main\<close>: the two output arrays and the two open slots. The
  lines still to read are the argument of the loop.
\<close>

record ParserState = ParserResult +
  currentScene :: "Scene option"
  currentCharacter :: "Character option"

definition initialState :: ParserState where
  "initialState = \<lparr>scenes = [], characters = [], currentScene = None, currentCharacter = None\<rparr>"

text \<open>\<^verbatim>\<open>if (x) xs.push(x)\<close>\<close>

definition pushIfDefined :: "'a list \<Rightarrow> 'a option \<Rightarrow> 'a list" where
  "pushIfDefined xs x = (case x of None \<Rightarrow> xs | Some v \<Rightarrow> xs @ [v])"

text \<open>One iteration of the loop: the \<^verbatim>\<open>switch (true)\<close> takes the first case that holds.\<close>

definition processLine :: "ParserState \<Rightarrow> string \<Rightarrow> error + ParserState" where
  "processLine st line =
     (if hasKeyword Character line 0 then
        (let pushed = pushIfDefined (characters st) (currentCharacter st)
         in case makeCharacter line of
              Inl e \<Rightarrow> Inl e
            | Inr c \<Rightarrow> Inr (st\<lparr>characters := pushed, currentCharacter := Some c\<rparr>))
      else if hasKeyword Emotion line 1 then
        (case addEmotion line (currentCharacter st) of
           Inl e \<Rightarrow> Inl e
         | Inr c \<Rightarrow> Inr (st\<lparr>currentCharacter := Some c\<rparr>))
      else if hasKeyword Scene line 0 then
        (case makeScene line of
           Inl e \<Rightarrow> Inl e
         | Inr newScene \<Rightarrow>
             (case currentScene st of
                None \<Rightarrow> Inr (st\<lparr>currentScene := Some newScene\<rparr>)
              | Some cur \<Rightarrow>
                  Inr (st\<lparr>scenes :=
                            scenes st @
                              [cur\<lparr>nextScene :=
                                     (case nextScene cur of
                                        None \<Rightarrow> Some (label newScene)
                                      | Some n \<Rightarrow> Some n)\<rparr>],
                          currentScene := Some (newScene\<lparr>previousScene := Some (label cur)\<rparr>)\<rparr>)))
      else if hasKeyword Choice line 1 then
        (case addChoice line (currentScene st) of
           Inl e \<Rightarrow> Inl e
         | Inr s \<Rightarrow> Inr (st\<lparr>currentScene := Some s\<rparr>))
      else Inr st)"

fun processLines :: "ParserState \<Rightarrow> string list \<Rightarrow> error + ParserState" where
  "processLines st [] = Inr st"
| "processLines st (line # lines) =
     (case processLine st line of
        Inl e \<Rightarrow> Inl e
      | Inr st' \<Rightarrow> processLines st' lines)"

definition main :: "string \<Rightarrow> error + ParserResult" where
  "main script =
     (case processLines initialState (getLines script) of
        Inl e \<Rightarrow> Inl e
      | Inr st \<Rightarrow>
          Inr \<lparr>scenes = organizeSceneRefs (pushIfDefined (scenes st) (currentScene st)),
               characters = pushIfDefined (characters st) (currentCharacter st)\<rparr>)"

section \<open>Properties of the reference reconciler\<close>

text \<open>
  The fold that collects the references appends one entry per scene that owns choices, so
  the search for a reference is a search for the first scene with a choice to the label.
\<close>

lemma sceneReferences_foldl:
  "foldl (\<lambda>acc scene.
              case choices scene of
                None \<Rightarrow> acc
              | Some cs \<Rightarrow> acc @ [\<lparr>parent = label scene,
                                     Reference.choices = map targetScene cs\<rparr>])
           acc scs
   = acc @ concat (map (\<lambda>scene. case choices scene of
                None \<Rightarrow> []
              | Some cs \<Rightarrow> [\<lparr>parent = label scene,
                                     Reference.choices = map targetScene cs\<rparr>]) scs)"
  by (induction scs arbitrary: acc) (auto split: option.splits)

lemma sceneReferences_concat:
  "sceneReferences scs =
     concat (map (\<lambda>scene. case choices scene of
                None \<Rightarrow> []
              | Some cs \<Rightarrow> [\<lparr>parent = label scene,
                                     Reference.choices = map targetScene cs\<rparr>]) scs)"
  unfolding sceneReferences_def by (simp add: sceneReferences_foldl)

lemma find_sceneReferences:
  "find (\<lambda>ref. l \<in> set (Reference.choices ref)) (sceneReferences scs) =
     map_option (\<lambda>s. \<lparr>parent = label s, Reference.choices = map targetScene (the (choices s))\<rparr>)
       (find (\<lambda>s. \<exists>cs. choices s = Some cs \<and> l \<in> targetScene ` set cs) scs)"
  unfolding sceneReferences_concat
  by (induction scs) (auto split: option.splits)

lemma organizeSceneRefs_map:
  "organizeSceneRefs scs =
     map (\<lambda>scene.
            case find (\<lambda>s. \<exists>cs. choices s = Some cs \<and> label scene \<in> targetScene ` set cs) scs of
              None \<Rightarrow> scene
            | Some s \<Rightarrow> scene\<lparr>previousScene := Some (label s)\<rparr>) scs"
  unfolding organizeSceneRefs_def Let_def
  by (rule map_cong) (auto simp: find_sceneReferences split: option.splits)

lemma length_organizeSceneRefs: "length (organizeSceneRefs scs) = length scs"
  by (simp add: organizeSceneRefs_map)

text \<open>
  Claim C10. \<^const>\<open>organizeSceneRefs\<close> returns as many scenes as it is given, in the same
  order, and changes no field of a scene other than \<^const>\<open>previousScene\<close>: the labels,
  conditions, next scenes, ending flags, dialogues and choices are those of the input, and
  the two sequences are equal once \<^const>\<open>previousScene\<close> is erased from every scene.
\<close>

theorem organizeSceneRefs_frame:
  "length (organizeSceneRefs scs) = length scs \<and>
   map label (organizeSceneRefs scs) = map label scs \<and>
   map condition (organizeSceneRefs scs) = map condition scs \<and>
   map nextScene (organizeSceneRefs scs) = map nextScene scs \<and>
   map isEndingScene (organizeSceneRefs scs) = map isEndingScene scs \<and>
   map dialogues (organizeSceneRefs scs) = map dialogues scs \<and>
   map choices (organizeSceneRefs scs) = map choices scs \<and>
   map (\<lambda>s. s\<lparr>previousScene := None\<rparr>) (organizeSceneRefs scs) =
     map (\<lambda>s. s\<lparr>previousScene := None\<rparr>) scs"
  by (simp add: organizeSceneRefs_map o_def split: option.split cong: map_cong)

text \<open>
  The accumulator pass on the script of three scenes \<open>A\<close>, \<open>B\<close>, \<open>C\<close>, where \<open>A\<close> has a choice
  to \<open>C\<close>: chaining makes \<open>B\<close> the predecessor of \<open>C\<close> before the reconciler runs.
\<close>

lemma precedence_example_scenes:
  "map_sum id scenes
     (main (''scene A:'' @ [CHR 0x0A] @ ''    choice<C>: go there'' @ [CHR 0x0A] @
            ''scene B:'' @ [CHR 0x0A] @ ''scene C:'')) =
   Inr (organizeSceneRefs
     [\<lparr>label = ''A'', nextScene = Some ''B'', previousScene = None, isEndingScene = False,
       dialogues = [], choices = Some [\<lparr>Choice.label = ''go there'', targetScene = ''C''\<rparr>],
       condition = None\<rparr>,
      \<lparr>label = ''B'', nextScene = Some ''C'', previousScene = Some ''A'', isEndingScene = False,
       dialogues = [], choices = None, condition = None\<rparr>,
      \<lparr>label = ''C'', nextScene = None, previousScene = Some ''B'', isEndingScene = False,
       dialogues = [], choices = None, condition = None\<rparr>])"
  by code_simp

text \<open>
  Claim C1. After \<^const>\<open>organizeSceneRefs\<close>, a scene whose label is the target of a choice of
  some scene has as \<^const>\<open>previousScene\<close> the label of the first scene, in the order of the
  sequence, that owns such a choice; a scene whose label no choice targets keeps the
  \<^const>\<open>previousScene\<close> it had. The labels and choices are those of the result as well, since
  the pass leaves them as they are. In particular, for three scenes \<open>a\<close>, \<open>b\<close>, \<open>c\<close> in that
  order where \<open>a\<close> owns a choice that targets the label of \<open>c\<close>, the last scene ends with the
  label of \<open>a\<close>, whatever chaining had put there.
\<close>

theorem organizeSceneRefs_precedence:
  "(i < length scs \<longrightarrow>
      ((\<exists>j<length scs. \<exists>cs. choices (scs ! j) = Some cs \<and> label (scs ! i) \<in> targetScene ` set cs) \<longrightarrow>
         (\<exists>j<length scs.
            (\<exists>cs. choices (scs ! j) = Some cs \<and> label (scs ! i) \<in> targetScene ` set cs) \<and>
            (\<forall>k<j. \<not> (\<exists>cs. choices (scs ! k) = Some cs \<and> label (scs ! i) \<in> targetScene ` set cs)) \<and>
            previousScene (organizeSceneRefs scs ! i) = Some (label (scs ! j)))) \<and>
      (\<not> (\<exists>j<length scs. \<exists>cs. choices (scs ! j) = Some cs \<and> label (scs ! i) \<in> targetScene ` set cs) \<longrightarrow>
         previousScene (organizeSceneRefs scs ! i) = previousScene (scs ! i))) \<and>
   (choices a = Some cs \<and> label c \<in> targetScene ` set cs \<longrightarrow>
      previousScene (organizeSceneRefs [a, b, c] ! 2) = Some (label a))"
proof (intro conjI impI)
  let ?P = "\<lambda>s. \<exists>cs. choices s = Some cs \<and> label (scs ! i) \<in> targetScene ` set cs"
  assume i: "i < length scs"
  then have out: "organizeSceneRefs scs ! i =
      (case find ?P scs of None \<Rightarrow> scs ! i | Some s \<Rightarrow> (scs ! i)\<lparr>previousScene := Some (label s)\<rparr>)"
    by (simp add: organizeSceneRefs_map)
  {
    assume "\<exists>j<length scs. ?P (scs ! j)"
    then have "\<exists>s\<in>set scs. ?P s"
      using nth_mem by blast
    then obtain s where s: "find ?P scs = Some s"
      by (cases "find ?P scs") (auto simp: find_None_iff)
    then obtain j where j: "j < length scs" "?P (scs ! j)" "s = scs ! j" "\<forall>k<j. \<not> ?P (scs ! k)"
      unfolding find_Some_iff by blast
    from out s j(3) have "previousScene (organizeSceneRefs scs ! i) = Some (label (scs ! j))"
      by simp
    with j show "\<exists>j<length scs. ?P (scs ! j) \<and> (\<forall>k<j. \<not> ?P (scs ! k)) \<and>
        previousScene (organizeSceneRefs scs ! i) = Some (label (scs ! j))"
      by blast
  }
  {
    assume "\<not> (\<exists>j<length scs. ?P (scs ! j))"
    then have "\<forall>s\<in>set scs. \<not> ?P s"
      by (metis in_set_conv_nth)
    then have "find ?P scs = None"
      by (simp add: find_None_iff)
    with out show "previousScene (organizeSceneRefs scs ! i) = previousScene (scs ! i)"
      by simp
  }
next
  assume "choices a = Some cs \<and> label c \<in> targetScene ` set cs"
  then show "previousScene (organizeSceneRefs [a, b, c] ! 2) = Some (label a)"
    by (simp add: organizeSceneRefs_map)
qed

theorem organizeSceneRefs_precedence_witness:
  "map_sum id (\<lambda>r. (length (scenes r), previousScene (scenes r ! 1), previousScene (scenes r ! 2)))
     (main (''scene A:'' @ [CHR 0x0A] @ ''    choice<C>: go there'' @ [CHR 0x0A] @
            ''scene B:'' @ [CHR 0x0A] @ ''scene C:'')) =
   Inr (3, Some ''A'', Some ''A'')"
proof -
  let ?a = "\<lparr>label = ''A'', nextScene = Some ''B'', previousScene = None, isEndingScene = False,
       dialogues = [], choices = Some [\<lparr>Choice.label = ''go there'', targetScene = ''C''\<rparr>],
       condition = None\<rparr>"
  let ?b = "\<lparr>label = ''B'', nextScene = Some ''C'', previousScene = Some ''A'', isEndingScene = False,
       dialogues = [], choices = None, condition = None\<rparr>"
  let ?c = "\<lparr>label = ''C'', nextScene = None, previousScene = Some ''B'', isEndingScene = False,
       dialogues = [], choices = None, condition = None\<rparr>"
  have len: "length (organizeSceneRefs [?a, ?b, ?c]) = 3"
    by (simp add: length_organizeSceneRefs)
  have p2: "previousScene (organizeSceneRefs [?a, ?b, ?c] ! 2) = Some ''A''"
    using organizeSceneRefs_precedence
      [of 0 "[]" ?a "[\<lparr>Choice.label = ''go there'', targetScene = ''C''\<rparr>]" ?c ?b]
    by simp
  have "\<not> (\<exists>j<length [?a, ?b, ?c]. \<exists>cs. choices ([?a, ?b, ?c] ! j) = Some cs \<and>
            label ([?a, ?b, ?c] ! 1) \<in> targetScene ` set cs)"
  proof (intro notI, elim exE conjE)
    fix j cs
    assume j: "j < length [?a, ?b, ?c]"
      and c: "choices ([?a, ?b, ?c] ! j) = Some cs"
      and l: "label ([?a, ?b, ?c] ! 1) \<in> targetScene ` set cs"
    from j consider "j = 0" | "j = Suc 0" | "j = Suc (Suc 0)"
      by (auto simp: less_Suc_eq)
    then show False
      using c l by cases auto
  qed
  then have p1: "previousScene (organizeSceneRefs [?a, ?b, ?c] ! 1) = Some ''A''"
    using organizeSceneRefs_precedence [of 1 "[?a, ?b, ?c]" ?a "[]" ?c ?b]
    by simp
  show ?thesis
    using precedence_example_scenes len p1 p2
    by (cases "main (''scene A:'' @ [CHR 0x0A] @ ''    choice<C>: go there'' @ [CHR 0x0A] @
            ''scene B:'' @ [CHR 0x0A] @ ''scene C:'')") auto
qed

section \<open>String primitives\<close>

lemma startsWith_iff: "startsWith s k \<longleftrightarrow> (\<exists>r. s = k @ r)"
  unfolding startsWith_def
  by (metis append_eq_conv_conj append_take_drop_id)

lemma js_split_not_Nil: "js_split sep s \<noteq> []"
  by (induction s) (auto split: list.splits)

lemma js_split_no_separator: "sep \<notin> set s \<Longrightarrow> js_split sep s = [s]"
  by (induction s) auto

lemma js_split_first_separator:
  "sep \<notin> set a \<Longrightarrow> js_split sep (a @ sep # b) = a # js_split sep b"
  by (induction a) auto

text \<open>
  The first segment of a split always exists, so the case of a missing instruction in
  \<^const>\<open>addChoice\<close> and \<^const>\<open>addEmotion\<close> is never taken.
\<close>

lemma element_js_split_0: "\<exists>seg. element (js_split sep s) 0 = Some seg"
  using js_split_not_Nil [of sep s] by (cases "js_split sep s") (auto simp: element_def)

lemma element_1_no_separator: "sep \<notin> set s \<Longrightarrow> element (js_split sep s) (Suc 0) = None"
  by (simp add: js_split_no_separator element_def)

section \<open>Classification\<close>

lemma isIndentationLevelCorrect_iff:
  "isIndentationLevelCorrect line level \<longleftrightarrow> length (takeWhile isWhiteSpace line) = 4 * level"
proof -
  have "((of_nat n :: rat) / 4 = of_nat l) = (n = 4 * l)" for n l :: nat
  proof -
    have "((of_nat n :: rat) / 4 = of_nat l) = ((of_nat n :: rat) = of_nat (4 * l))"
      by (simp add: field_simps)
    then show ?thesis
      by (simp only: of_nat_eq_iff)
  qed
  then show ?thesis
    unfolding isIndentationLevelCorrect_def Let_def by auto
qed

lemma hasKeyword_iff:
  "hasKeyword keyword line level \<longleftrightarrow>
     startsWith (trim (toLowerCase line)) (keywordText keyword) \<and>
     length (takeWhile isWhiteSpace line) = 4 * level"
  by (simp add: hasKeyword_def isIndentationLevelCorrect_iff)

lemma keyword_Scene_exclusive:
  "startsWith s (keywordText Scene) \<Longrightarrow>
     \<not> startsWith s (keywordText Character) \<and> \<not> startsWith s (keywordText Emotion) \<and>
     \<not> startsWith s (keywordText Choice)"
  by (auto simp: startsWith_iff)

lemma keyword_Choice_exclusive:
  "startsWith s (keywordText Choice) \<Longrightarrow>
     \<not> startsWith s (keywordText Character) \<and> \<not> startsWith s (keywordText Emotion) \<and>
     \<not> startsWith s (keywordText Scene)"
  by (auto simp: startsWith_iff)

lemma keyword_Emotion_exclusive:
  "startsWith s (keywordText Emotion) \<Longrightarrow>
     \<not> startsWith s (keywordText Character) \<and> \<not> startsWith s (keywordText Scene) \<and>
     \<not> startsWith s (keywordText Choice)"
  by (auto simp: startsWith_iff)

lemma processLine_Character:
  "hasKeyword Character line 0 \<Longrightarrow>
   processLine st line =
     (case makeCharacter line of
        Inl e \<Rightarrow> Inl e
      | Inr c \<Rightarrow> Inr (st\<lparr>characters := pushIfDefined (characters st) (currentCharacter st),
                         currentCharacter := Some c\<rparr>))"
  by (simp add: processLine_def)

lemma processLine_Emotion:
  "hasKeyword Emotion line 1 \<Longrightarrow>
   processLine st line =
     (case addEmotion line (currentCharacter st) of
        Inl e \<Rightarrow> Inl e
      | Inr c \<Rightarrow> Inr (st\<lparr>currentCharacter := Some c\<rparr>))"
  using keyword_Emotion_exclusive [of "trim (toLowerCase line)"]
  by (simp add: processLine_def hasKeyword_iff)

lemma processLine_Scene:
  "hasKeyword Scene line 0 \<Longrightarrow>
   processLine st line =
     (case makeScene line of
        Inl e \<Rightarrow> Inl e
      | Inr newScene \<Rightarrow>
          (case currentScene st of
             None \<Rightarrow> Inr (st\<lparr>currentScene := Some newScene\<rparr>)
           | Some cur \<Rightarrow>
               Inr (st\<lparr>scenes :=
                         scenes st @
                           [cur\<lparr>nextScene :=
                                  (case nextScene cur of
                                     None \<Rightarrow> Some (label newScene)
                                   | Some n \<Rightarrow> Some n)\<rparr>],
                       currentScene := Some (newScene\<lparr>previousScene := Some (label cur)\<rparr>)\<rparr>)))"
  using keyword_Scene_exclusive [of "trim (toLowerCase line)"]
  by (simp add: processLine_def hasKeyword_iff)

lemma processLine_Choice:
  "hasKeyword Choice line 1 \<Longrightarrow>
   processLine st line =
     (case addChoice line (currentScene st) of
        Inl e \<Rightarrow> Inl e
      | Inr s \<Rightarrow> Inr (st\<lparr>currentScene := Some s\<rparr>))"
  using keyword_Choice_exclusive [of "trim (toLowerCase line)"]
  by (simp add: processLine_def hasKeyword_iff)

lemma processLine_ignored:
  "\<not> hasKeyword Character line 0 \<Longrightarrow> \<not> hasKeyword Emotion line 1 \<Longrightarrow>
   \<not> hasKeyword Scene line 0 \<Longrightarrow> \<not> hasKeyword Choice line 1 \<Longrightarrow>
   processLine st line = Inr st"
  by (simp add: processLine_def)

section \<open>The loop\<close>

lemma processLines_append:
  "processLines st (pre @ rest) =
     (case processLines st pre of Inl e \<Rightarrow> Inl e | Inr st' \<Rightarrow> processLines st' rest)"
  by (induction pre arbitrary: st) (auto split: sum.splits)

lemma processLines_abort:
  "processLines st pre = Inr st' \<Longrightarrow> processLine st' line = Inl e \<Longrightarrow>
   processLines st (pre @ line # rest) = Inl e"
  by (simp add: processLines_append)

lemma processLines_abort_somewhere:
  "line \<in> set lines \<Longrightarrow> \<forall>st. \<exists>e. processLine st line = Inl e \<Longrightarrow>
   \<exists>e. processLines st lines = Inl e"
proof (induction lines arbitrary: st)
  case Nil
  then show ?case by simp
next
  case (Cons l ls)
  show ?case
  proof (cases "processLine st l")
    case (Inl e)
    then show ?thesis by simp
  next
    case (Inr st')
    with Cons.prems have "line \<in> set ls"
      by (metis Inl_Inr_False set_ConsD)
    with Cons.IH Cons.prems(2) Inr show ?thesis by simp
  qed
qed

lemma main_abort: "processLines initialState (getLines script) = Inl e \<Longrightarrow> main script = Inl e"
  by (simp add: main_def)

section \<open>Declarations without a colon\<close>

lemma hasForbiddenInline_no_colon:
  "CHR '':'' \<notin> set line \<Longrightarrow> hasForbiddenInline line = Inl TypeError"
  by (simp add: hasForbiddenInline_def element_1_no_separator)

text \<open>
  Claim C4. A line without any colon that is classified as the start of a scene or of a
  character makes the parse fail: the builders return no scene and no character, the loop
  step on that line raises the \<^const>\<open>TypeError\<close> of the inline check in every state, a script
  with such a line among its lines has no result, and the error of the whole parse is that
  \<^const>\<open>TypeError\<close> when the lines before it were read without error.
\<close>

theorem colon_free_declaration_aborts:
  assumes "CHR '':'' \<notin> set line"
    and "hasKeyword Scene line 0 \<or> hasKeyword Character line 0"
  shows "makeScene line = Inl TypeError \<and> makeCharacter line = Inl TypeError \<and>
         processLine st line = Inl TypeError \<and>
         (line \<in> set (getLines script) \<longrightarrow> (\<exists>e. main script = Inl e)) \<and>
         (getLines script = pre @ line # rest \<and> processLines initialState pre = Inr st' \<longrightarrow>
            main script = Inl TypeError)"
proof -
  have ms: "makeScene line = Inl TypeError"
    using assms(1) by (simp add: makeScene_def hasForbiddenInline_no_colon)
  have mc: "makeCharacter line = Inl TypeError"
    using assms(1) by (simp add: makeCharacter_def hasForbiddenInline_no_colon)
  have step: "processLine s line = Inl TypeError" for s
    using assms(2)
  proof
    assume "hasKeyword Scene line 0"
    then show ?thesis by (simp add: processLine_Scene ms)
  next
    assume "hasKeyword Character line 0"
    then show ?thesis by (simp add: processLine_Character mc)
  qed
  have somewhere: "\<exists>e. main script = Inl e" if "line \<in> set (getLines script)"
  proof -
    from that step obtain e where "processLines initialState (getLines script) = Inl e"
      using processLines_abort_somewhere [of line "getLines script" initialState] by blast
    then show ?thesis by (auto dest: main_abort)
  qed
  have there: "main script = Inl TypeError"
    if "getLines script = pre @ line # rest" "processLines initialState pre = Inr st'"
    using that step [of st'] by (simp add: main_abort processLines_abort)
  from ms mc step somewhere there show ?thesis by blast
qed

theorem colon_free_declaration_aborts_witness:
  "CHR '':'' \<notin> set ''scene intro'' \<and> hasKeyword Scene ''scene intro'' 0 \<and>
   getLines (''character bob:'' @ [CHR 0x0A] @ ''scene intro'') = [''character bob:''] @ ''scene intro'' # [] \<and>
   (\<exists>s. processLines initialState [''character bob:''] = Inr s) \<and>
   makeScene ''scene intro'' = Inl TypeError \<and>
   main (''character bob:'' @ [CHR 0x0A] @ ''scene intro'') = Inl TypeError"
proof -
  have c: "CHR '':'' \<notin> set ''scene intro''" by simp
  have k: "hasKeyword Scene ''scene intro'' 0" by code_simp
  have g: "getLines (''character bob:'' @ [CHR 0x0A] @ ''scene intro'') =
      [''character bob:''] @ ''scene intro'' # []" by code_simp
  have "isl (processLines initialState [''character bob:'']) = False" by code_simp
  then obtain s where p: "processLines initialState [''character bob:''] = Inr s"
    by (cases "processLines initialState [''character bob:'']") auto
  from colon_free_declaration_aborts [OF c disjI1 [OF k], of initialState
      "''character bob:'' @ [CHR 0x0A] @ ''scene intro''" "[''character bob:'']" "[]" s] c k g p
  show ?thesis by blast
qed

section \<open>Fatal paths\<close>

lemma trim_Nil_iff: "trim s = [] \<longleftrightarrow> (\<forall>c\<in>set s. isWhiteSpace c)"
proof
  assume "trim s = []"
  then have all: "\<forall>c\<in>set (dropWhile isWhiteSpace s). isWhiteSpace c"
    by (simp add: trim_def dropWhile_eq_Nil_conv)
  have "dropWhile isWhiteSpace s = []"
  proof (cases "dropWhile isWhiteSpace s")
    case Nil
    then show ?thesis .
  next
    case (Cons x xs)
    then have "\<not> isWhiteSpace x"
      by (metis hd_dropWhile list.distinct(1) list.sel(1))
    with all Cons show ?thesis by simp
  qed
  then show "\<forall>c\<in>set s. isWhiteSpace c"
    by (simp add: dropWhile_eq_Nil_conv)
next
  assume "\<forall>c\<in>set s. isWhiteSpace c"
  then have d: "dropWhile isWhiteSpace s = []"
    by (simp add: dropWhile_eq_Nil_conv)
  show "trim s = []"
    unfolding trim_def d by simp
qed

lemma js_split_segments:
  assumes "sep \<notin> set a" and "sep \<notin> set seg" and "after = [] \<or> (\<exists>r. after = sep # r)"
  shows "element (js_split sep (a @ sep # seg @ after)) 0 = Some a \<and>
         element (js_split sep (a @ sep # seg @ after)) (Suc 0) = Some seg"
proof -
  have "\<exists>more. js_split sep (seg @ after) = seg # more"
    using assms(2,3) by (auto simp: js_split_no_separator js_split_first_separator)
  then show ?thesis
    using assms(1) by (auto simp: js_split_first_separator element_def)
qed

lemma js_split_one_segment:
  "sep \<notin> set s \<Longrightarrow> element (js_split sep s) 0 = Some s \<and> element (js_split sep s) (Suc 0) = None"
  by (simp add: js_split_no_separator element_def)

lemma addEmotion_missing_path:
  assumes "CHR '':'' \<notin> set line \<or>
           (\<exists>a r. CHR '':'' \<notin> set a \<and> (line = a @ '':'' \<or> line = a @ ''::'' @ r))"
  shows "addEmotion line (Some c) = Inl EmotionMissingPath"
  using assms
proof
  assume "CHR '':'' \<notin> set line"
  then show ?thesis
    by (simp add: addEmotion_def js_split_one_segment)
next
  assume "\<exists>a r. CHR '':'' \<notin> set a \<and> (line = a @ '':'' \<or> line = a @ ''::'' @ r)"
  then obtain a after where a: "CHR '':'' \<notin> set a" "line = a @ CHR '':'' # [] @ after"
      "after = [] \<or> (\<exists>r. after = CHR '':'' # r)"
    by auto
  have "element (js_split CHR '':'' line) 0 = Some a \<and>
        element (js_split CHR '':'' line) (Suc 0) = Some []"
    unfolding a(2) by (rule js_split_segments) (use a(1,3) in auto)
  then show ?thesis
    by (simp add: addEmotion_def)
qed

lemma hasForbiddenInline_segment:
  assumes "CHR '':'' \<notin> set a" and "CHR '':'' \<notin> set seg" and "after = [] \<or> (\<exists>r. after = '':'' @ r)"
  shows "hasForbiddenInline (a @ '':'' @ seg @ after) = Inr (\<exists>c\<in>set seg. \<not> isWhiteSpace c)"
proof -
  have "element (js_split CHR '':'' (a @ CHR '':'' # seg @ after)) (Suc 0) = Some seg"
    using js_split_segments [of "CHR '':''" a seg after] assms by simp
  then show ?thesis
    using trim_Nil_iff [of seg] by (auto simp: hasForbiddenInline_def)
qed




section \<open>Counting scenes and characters\<close>

lemma length_pushIfDefined:
  "length (pushIfDefined xs x) = length xs + (case x of None \<Rightarrow> 0 | Some v \<Rightarrow> 1)"
  by (simp add: pushIfDefined_def split: option.split)

lemma hasKeyword_Character_not_Scene: "hasKeyword Character line 0 \<Longrightarrow> \<not> hasKeyword Scene line 0"
  using keyword_Scene_exclusive [of "trim (toLowerCase line)"] by (auto simp: hasKeyword_iff)

lemma hasKeyword_Emotion_not_declaration:
  "hasKeyword Emotion line 1 \<Longrightarrow> \<not> hasKeyword Scene line 0 \<and> \<not> hasKeyword Character line 0"
  by (auto simp: hasKeyword_iff)

lemma hasKeyword_Choice_not_declaration:
  "hasKeyword Choice line 1 \<Longrightarrow> \<not> hasKeyword Scene line 0 \<and> \<not> hasKeyword Character line 0"
  by (auto simp: hasKeyword_iff)

lemma addEmotion_None: "addEmotion line None = Inl EmotionOutsideCharacter"
  by (simp add: addEmotion_def)

lemma addChoice_None: "addChoice line None = Inl ChoiceOutsideScene"
  by (simp add: addChoice_def)

lemma processLine_counts:
  assumes "processLine st line = Inr st'"
  shows "length (pushIfDefined (scenes st') (currentScene st')) =
           length (pushIfDefined (scenes st) (currentScene st)) +
           (if hasKeyword Scene line 0 then 1 else 0) \<and>
         length (pushIfDefined (characters st') (currentCharacter st')) =
           length (pushIfDefined (characters st) (currentCharacter st)) +
           (if hasKeyword Character line 0 then 1 else 0)"
proof -
  consider (character) "hasKeyword Character line 0"
    | (emotion) "hasKeyword Emotion line 1"
    | (scene) "hasKeyword Scene line 0"
    | (choice) "hasKeyword Choice line 1"
    | (ignored) "\<not> hasKeyword Character line 0" "\<not> hasKeyword Emotion line 1"
        "\<not> hasKeyword Scene line 0" "\<not> hasKeyword Choice line 1"
    by blast
  then show ?thesis
  proof cases
    case character
    with assms hasKeyword_Character_not_Scene [of line] show ?thesis
      by (auto simp: processLine_Character length_pushIfDefined split: sum.splits option.splits)
  next
    case emotion
    with assms hasKeyword_Emotion_not_declaration [of line] show ?thesis
      by (auto simp: processLine_Emotion length_pushIfDefined addEmotion_None
          split: sum.splits option.splits)
  next
    case scene
    with assms hasKeyword_Character_not_Scene [of line] show ?thesis
      by (auto simp: processLine_Scene length_pushIfDefined split: sum.splits option.splits)
  next
    case choice
    with assms hasKeyword_Choice_not_declaration [of line] show ?thesis
      by (auto simp: processLine_Choice length_pushIfDefined addChoice_None
          split: sum.splits option.splits)
  next
    case ignored
    with assms show ?thesis
      by (simp add: processLine_ignored)
  qed
qed

lemma processLines_counts:
  "processLines st lines = Inr st' \<Longrightarrow>
   length (pushIfDefined (scenes st') (currentScene st')) =
     length (pushIfDefined (scenes st) (currentScene st)) +
     length (filter (\<lambda>l. hasKeyword Scene l 0) lines) \<and>
   length (pushIfDefined (characters st') (currentCharacter st')) =
     length (pushIfDefined (characters st) (currentCharacter st)) +
     length (filter (\<lambda>l. hasKeyword Character l 0) lines)"
proof (induction lines arbitrary: st)
  case Nil
  then show ?case by simp
next
  case (Cons l ls)
  then obtain st1 where st1: "processLine st l = Inr st1" "processLines st1 ls = Inr st'"
    by (auto split: sum.splits)
  from processLine_counts [OF st1(1)] Cons.IH [OF st1(2)] show ?case
    by simp
qed

lemma toLowerCaseChar_white: "isWhiteSpace c \<Longrightarrow> toLowerCaseChar c = c"
  by (auto simp: isWhiteSpace_def toLowerCaseChar_def)

lemma hasKeyword_not_blank: "hasKeyword keyword line level \<Longrightarrow> 0 < length (trim line)"
proof (rule ccontr)
  assume k: "hasKeyword keyword line level" and "\<not> 0 < length (trim line)"
  then have "\<forall>c\<in>set line. isWhiteSpace c"
    by (simp add: trim_Nil_iff)
  then have "\<forall>c\<in>set (toLowerCase line). isWhiteSpace c"
    by (auto simp: toLowerCase_def toLowerCaseChar_white)
  then have "trim (toLowerCase line) = []"
    by (simp add: trim_Nil_iff)
  with k show False
    by (cases keyword) (simp_all add: hasKeyword_iff startsWith_def)
qed

lemma filter_hasKeyword_getLines:
  "filter (\<lambda>l. hasKeyword keyword l level) (getLines script) =
   filter (\<lambda>l. hasKeyword keyword l level) (js_split CHR 0x0A script)"
  unfolding getLines_def filter_filter
  by (rule filter_cong) (auto dest: hasKeyword_not_blank)

text \<open>
  Claim C9. When the parse of a script returns a result, the result has as many scenes as
  the script has lines classified as \<open>scene\<close> statements at level 0, and as many characters
  as it has lines classified as \<open>character\<close> statements at level 0. The count is the same
  over the lines that the preprocessor keeps and over all lines of the script, since a
  blank line is never classified.
\<close>

theorem scene_and_character_counts:
  assumes "main script = Inr result"
  shows "length (scenes result) =
           length (filter (\<lambda>l. hasKeyword Scene l 0) (getLines script)) \<and>
         length (characters result) =
           length (filter (\<lambda>l. hasKeyword Character l 0) (getLines script)) \<and>
         length (scenes result) =
           length (filter (\<lambda>l. hasKeyword Scene l 0) (js_split CHR 0x0A script)) \<and>
         length (characters result) =
           length (filter (\<lambda>l. hasKeyword Character l 0) (js_split CHR 0x0A script))"
proof -
  from assms obtain st where st: "processLines initialState (getLines script) = Inr st"
    and res: "result = \<lparr>scenes = organizeSceneRefs (pushIfDefined (scenes st) (currentScene st)),
                         characters = pushIfDefined (characters st) (currentCharacter st)\<rparr>"
    by (auto simp: main_def split: sum.splits)
  have "length (pushIfDefined (scenes initialState) (currentScene initialState)) = 0"
    and "length (pushIfDefined (characters initialState) (currentCharacter initialState)) = 0"
    by (simp_all add: initialState_def pushIfDefined_def)
  with processLines_counts [OF st] res
  have "length (scenes result) =
           length (filter (\<lambda>l. hasKeyword Scene l 0) (getLines script)) \<and>
         length (characters result) =
           length (filter (\<lambda>l. hasKeyword Character l 0) (getLines script))"
    by (simp add: length_organizeSceneRefs)
  then show ?thesis
    by (simp add: filter_hasKeyword_getLines)
qed

theorem scene_and_character_counts_witness:
  "\<exists>result. main (''scene A:'' @ [CHR 0x0A] @ ''character bob:'' @ [CHR 0x0A] @ ''scene B:'') = Inr result \<and>
     length (scenes result) = 2 \<and> length (characters result) = 1"
proof -
  let ?script = "''scene A:'' @ [CHR 0x0A] @ ''character bob:'' @ [CHR 0x0A] @ ''scene B:''"
  have "isl (main ?script) = False" by code_simp
  then obtain result where r: "main ?script = Inr result"
    by (cases "main ?script") auto
  have s: "length (filter (\<lambda>l. hasKeyword Scene l 0) (getLines ?script)) = 2" by code_simp
  have c: "length (filter (\<lambda>l. hasKeyword Character l 0) (getLines ?script)) = 1" by code_simp
  from scene_and_character_counts [OF r] s c r show ?thesis by simp
qed

section \<open>Chaining\<close>

lemma processLine_scenes_extend:
  "processLine st line = Inr st' \<Longrightarrow> \<exists>ext. scenes st' = scenes st @ ext"
  by (auto simp: processLine_def split: if_splits sum.splits option.splits)

lemma processLines_scenes_extend:
  "processLines st lines = Inr st' \<Longrightarrow> \<exists>ext. scenes st' = scenes st @ ext"
proof (induction lines arbitrary: st)
  case Nil
  then show ?case by simp
next
  case (Cons l ls)
  then obtain st1 where st1: "processLine st l = Inr st1" "processLines st1 ls = Inr st'"
    by (auto split: sum.splits)
  from processLine_scenes_extend [OF st1(1)] Cons.IH [OF st1(2)] show ?case
    by auto
qed

lemma organizeSceneRefs_nth:
  "i < length scs \<Longrightarrow>
   label (organizeSceneRefs scs ! i) = label (scs ! i) \<and>
   nextScene (organizeSceneRefs scs ! i) = nextScene (scs ! i) \<and>
   choices (organizeSceneRefs scs ! i) = choices (scs ! i) \<and>
   condition (organizeSceneRefs scs ! i) = condition (scs ! i)"
  by (simp add: organizeSceneRefs_map split: option.split)

text \<open>
  The chaining rule. Let the lines before a scene-start \<open>line\<close> be read without error,
  reaching a state \<open>st\<close> in which the scene \<open>cur\<close> is open, and let the parse of the script
  return a result. Then the step on \<open>line\<close> builds a new scene, pushes \<open>cur\<close> with its
  \<^const>\<open>nextScene\<close> set to the label of the new scene only if it had none, and opens the new
  scene with the label of \<open>cur\<close> as its \<^const>\<open>previousScene\<close>. The scene pushed is the one at
  that position of the result, with the same \<^const>\<open>nextScene\<close>: an explicit next scene
  is the one emitted, and chaining fills in only a missing one.
\<close>

lemma chaining_keeps_explicit_next:
  assumes "getLines script = pre @ line # rest"
    and "processLines initialState pre = Inr st"
    and "currentScene st = Some cur"
    and "hasKeyword Scene line 0"
    and "main script = Inr result"
  shows "\<exists>newScene st'.
           makeScene line = Inr newScene \<and> processLine st line = Inr st' \<and>
           scenes st' =
             scenes st @
               [cur\<lparr>nextScene := (case nextScene cur of
                                      None \<Rightarrow> Some (label newScene)
                                    | Some z \<Rightarrow> Some z)\<rparr>] \<and>
           currentScene st' = Some (newScene\<lparr>previousScene := Some (label cur)\<rparr>) \<and>
           length (scenes st) < length (scenes result) \<and>
           label (scenes result ! length (scenes st)) = label cur \<and>
           nextScene (scenes result ! length (scenes st)) =
             (case nextScene cur of None \<Rightarrow> Some (label newScene) | Some z \<Rightarrow> Some z)"
proof -
  from assms(5) obtain stf where stf: "processLines initialState (getLines script) = Inr stf"
    and res: "scenes result = organizeSceneRefs (pushIfDefined (scenes stf) (currentScene stf))"
    by (auto simp: main_def split: sum.splits)
  from stf assms(1,2) have "processLines st (line # rest) = Inr stf"
    by (simp add: processLines_append)
  then obtain st' where st': "processLine st line = Inr st'" "processLines st' rest = Inr stf"
    by (auto split: sum.splits)
  from st'(1) assms(3,4) obtain newScene where new: "makeScene line = Inr newScene"
    and upd: "st' = st\<lparr>scenes := scenes st @
                 [cur\<lparr>nextScene := (case nextScene cur of
                                        None \<Rightarrow> Some (label newScene)
                                      | Some z \<Rightarrow> Some z)\<rparr>],
               currentScene := Some (newScene\<lparr>previousScene := Some (label cur)\<rparr>)\<rparr>"
    by (auto simp: processLine_Scene split: sum.splits)
  let ?pushed = "cur\<lparr>nextScene := (case nextScene cur of
                                      None \<Rightarrow> Some (label newScene)
                                    | Some z \<Rightarrow> Some z)\<rparr>"
  from processLines_scenes_extend [OF st'(2)] upd
  obtain ext where ext: "scenes stf = scenes st @ ?pushed # ext"
    by auto
  have "\<exists>ext'. pushIfDefined (scenes stf) (currentScene stf) = scenes st @ ?pushed # ext'"
    by (cases "currentScene stf") (simp_all add: pushIfDefined_def ext)
  then obtain ext' where
    all: "pushIfDefined (scenes stf) (currentScene stf) = scenes st @ ?pushed # ext'" ..
  then have len: "length (scenes st) < length (pushIfDefined (scenes stf) (currentScene stf))"
    and at: "pushIfDefined (scenes stf) (currentScene stf) ! length (scenes st) = ?pushed"
    by simp_all
  from organizeSceneRefs_nth [OF len] at res
  have "label (scenes result ! length (scenes st)) = label cur"
    and "nextScene (scenes result ! length (scenes st)) =
           (case nextScene cur of None \<Rightarrow> Some (label newScene) | Some z \<Rightarrow> Some z)"
    by simp_all
  moreover from len res have "length (scenes st) < length (scenes result)"
    by (simp add: length_organizeSceneRefs)
  moreover from upd have "scenes st' = scenes st @ [?pushed]"
    and "currentScene st' = Some (newScene\<lparr>previousScene := Some (label cur)\<rparr>)"
    by simp_all
  ultimately show ?thesis
    using new st'(1) by blast
qed

text \<open>On declarations that end with their colon, the explicit next scene is the one emitted.\<close>

lemma chaining_on_declarations_with_colon:
  "\<exists>result. main (''scene A -> Z:'' @ [CHR 0x0A] @ ''scene B:'') = Inr result \<and>
     length (scenes result) = 2 \<and>
     label (scenes result ! 0) = ''A'' \<and> nextScene (scenes result ! 0) = Some ''Z''"
proof -
  let ?script = "''scene A -> Z:'' @ [CHR 0x0A] @ ''scene B:''"
  let ?cur = "\<lparr>label = ''A'', nextScene = Some ''Z'', previousScene = None,
     isEndingScene = False, dialogues = [], choices = None, condition = None\<rparr>"
  have g: "getLines ?script = [] @ ''scene A -> Z:'' # [''scene B:'']" by code_simp
  have "case processLines initialState [''scene A -> Z:''] of
          Inl e \<Rightarrow> False
        | Inr s \<Rightarrow> scenes s = [] \<and> currentScene s = Some ?cur"
    by code_simp
  then obtain st where st: "processLines initialState [''scene A -> Z:''] = Inr st"
      "scenes st = []" "currentScene st = Some ?cur"
    by (auto split: sum.splits)
  have g': "getLines ?script = [''scene A -> Z:''] @ ''scene B:'' # []"
    using g by simp
  have k: "hasKeyword Scene ''scene B:'' 0" by code_simp
  have "isl (main ?script) = False" by code_simp
  then obtain result where r: "main ?script = Inr result"
    by (cases "main ?script") auto
  have "map_sum id (\<lambda>r. length (scenes r)) (main ?script) = Inr 2" by code_simp
  with r have "length (scenes result) = 2" by simp
  with chaining_keeps_explicit_next [OF g' st(1) st(3) k r] st(2) r show ?thesis
    by auto
qed

text \<open>
  Claim C2. The claim ends with the scene declared as \<^verbatim>\<open>scene A -> Z\<close> and followed at once by
  \<^verbatim>\<open>scene B\<close>, whose \<^const>\<open>nextScene\<close> is to remain \<^verbatim>\<open>Z\<close> in the result. The chaining step does
  keep an explicit next scene, as shown above, but the parse of these two lines never
  reaches it: the first line is recognised as a scene declaration, and
  \<^const>\<open>hasForbiddenInline\<close>, called first by \<^const>\<open>makeScene\<close>, calls \<^verbatim>\<open>trim\<close> on the second
  segment of a line that has no colon, which is \<^verbatim>\<open>undefined\<close>. The \<^const>\<open>TypeError\<close> ends
  the parse, and no scene is emitted.
\<close>

theorem chaining_failing_input:
  "hasKeyword Scene ''scene A -> Z'' 0 \<and>
   hasForbiddenInline ''scene A -> Z'' = Inl TypeError \<and>
   makeScene ''scene A -> Z'' = Inl TypeError \<and>
   main (''scene A -> Z'' @ [CHR 0x0A] @ ''scene B'') = Inl TypeError"
proof -
  have k: "hasKeyword Scene ''scene A -> Z'' 0" by code_simp
  have f: "hasForbiddenInline ''scene A -> Z'' = Inl TypeError" by code_simp
  have s: "makeScene ''scene A -> Z'' = Inl TypeError" by code_simp
  have "map_sum id scenes (main (''scene A -> Z'' @ [CHR 0x0A] @ ''scene B'')) = Inl TypeError"
    by code_simp
  then have m: "main (''scene A -> Z'' @ [CHR 0x0A] @ ''scene B'') = Inl TypeError"
    by (cases "main (''scene A -> Z'' @ [CHR 0x0A] @ ''scene B'')") simp_all
  from k f s m show ?thesis by blast
qed

section \<open>Parameter extraction\<close>

lemma indexOf_absent: "c \<notin> set s \<Longrightarrow> indexOf s c = - 1"
  by (induction s) auto

lemma indexOf_first: "c \<notin> set a \<Longrightarrow> indexOf (a @ c # b) c = int (length a)"
  by (induction a) (auto simp: Let_def)

lemma substring_middle:
  "substring (a @ m @ b) (int (length a)) (int (length a) + int (length m)) = m"
  by (simp add: substring_def Let_def min_def max_def)

lemma js_replace_first_occurrence:
  "c \<notin> set a \<Longrightarrow> js_replace (c # q) rep (a @ (c # q) @ b) = a @ rep @ b"
  by (induction a) (auto simp: startsWith_def)

lemma js_replace_absent: "c \<notin> set s \<Longrightarrow> js_replace (c # q) rep s = s"
  by (induction s) (auto simp: startsWith_def)

lemma getParameter_none: "CHR ''<'' \<notin> set str \<Longrightarrow> getParameter str = (str, None)"
  by (simp add: getParameter_def)

lemma getParameter_split:
  assumes "CHR ''<'' \<notin> set l" and "CHR ''>'' \<notin> set l" and "CHR ''>'' \<notin> set p"
  shows "getParameter (l @ ''<'' @ p @ ''>'' @ rest) = (l @ rest, Some p)"
proof -
  let ?str = "l @ CHR ''<'' # p @ CHR ''>'' # rest"
  have lt: "indexOf ?str CHR ''<'' = int (length l)"
    using assms(1) by (rule indexOf_first)
  have "CHR ''>'' \<notin> set (l @ CHR ''<'' # p)"
    using assms(2,3) by simp
  from indexOf_first [OF this, of rest]
  have gt: "indexOf ?str CHR ''>'' = int (length l) + 1 + int (length p)"
    by simp
  have "substring ((l @ ''<'') @ p @ (''>'' @ rest)) (int (length (l @ ''<'')))
          (int (length (l @ ''<'')) + int (length p)) = p"
    by (rule substring_middle)
  then have "substring ?str (int (length l) + 1) (int (length l) + 1 + int (length p)) = p"
    by (simp add: add.commute)
  then have par: "substring ?str (indexOf ?str CHR ''<'' + 1) (indexOf ?str CHR ''>'') = p"
    by (simp only: lt gt)
  have "js_replace (CHR ''<'' # (p @ ''>'')) [] (l @ (CHR ''<'' # (p @ ''>'')) @ rest) = l @ [] @ rest"
    using assms(1) by (rule js_replace_first_occurrence)
  then have rep: "js_replace (CHR ''<'' # p @ ''>'') [] ?str = l @ rest"
    by simp
  have "getParameter ?str = (l @ rest, Some p)"
    unfolding getParameter_def Let_def par by (simp add: rep)
  then show ?thesis
    by simp
qed

lemma collapseWhiteSpace_no_white:
  "\<forall>c\<in>set s. \<not> isWhiteSpace c \<Longrightarrow> collapseWhiteSpace s = s"
  by (induction s) auto

lemma trim_no_white_ends:
  assumes "s \<noteq> []" and "\<not> isWhiteSpace (hd s)" and "\<not> isWhiteSpace (last s)"
  shows "trim s = s"
proof -
  have "dropWhile isWhiteSpace s = s"
    using assms(2) by (simp add: dropWhile_eq_self_iff)
  moreover have "dropWhile isWhiteSpace (rev s) = rev s"
    using assms(1,3) by (simp add: dropWhile_eq_self_iff hd_rev)
  ultimately show ?thesis
    by (simp add: trim_def)
qed

lemma removeExtraSpaces_scene_token:
  assumes "\<forall>c\<in>set w. \<not> isWhiteSpace c" and "w \<noteq> []"
  shows "removeExtraSpaces (''scene '' @ w) = ''scene '' @ w"
proof -
  have "dropWhile isWhiteSpace w = w"
    using assms by (cases w) auto
  then have "collapseWhiteSpace (''scene '' @ w) = ''scene '' @ w"
    using assms(1) by (simp add: isWhiteSpace_def collapseWhiteSpace_no_white)
  moreover have "trim (''scene '' @ w) = ''scene '' @ w"
    using assms by (intro trim_no_white_ends) (simp_all add: isWhiteSpace_def)
  ultimately show ?thesis
    by (simp add: removeExtraSpaces_def)
qed

lemma makeScene_token:
  assumes w: "\<forall>c\<in>set w. \<not> isWhiteSpace c \<and> c \<noteq> CHR '':''"
  shows "makeScene (''scene '' @ w @ '':'') =
           (let (bareLabel, parameter) = getParameter w
            in Inr \<lparr>label = bareLabel, nextScene = None, previousScene = None,
                     isEndingScene = False, dialogues = [], choices = None,
                     condition = parameter\<rparr>)"
proof -
  have white: "\<forall>c\<in>set (w @ '':''). \<not> isWhiteSpace c"
    using w by (auto simp: isWhiteSpace_def)
  have "CHR '':'' \<notin> set (''scene '' @ w)"
    using w by auto
  from hasForbiddenInline_segment [OF this, of "[]" "[]"]
  have inline: "hasForbiddenInline (''scene '' @ w @ '':'') = Inr False"
    by simp
  have "removeExtraSpaces (''scene '' @ (w @ '':'')) = ''scene '' @ (w @ '':'')"
    using white by (intro removeExtraSpaces_scene_token) simp_all
  moreover have "CHR '' '' \<notin> set (w @ '':'')"
    using white by (auto simp: isWhiteSpace_def)
  then have "js_split CHR '' '' (''scene'' @ CHR '' '' # (w @ '':'')) = [''scene'', w @ '':'']"
    by (simp add: js_split_first_separator js_split_no_separator)
  ultimately have tokens: "js_split CHR '' '' (removeExtraSpaces (''scene '' @ w @ '':'')) =
      [''scene'', w @ '':'']"
    by simp
  have "CHR '':'' \<notin> set w"
    using w by auto
  from js_replace_first_occurrence [OF this, of "[]" "[]" "[]"]
  have colon: "js_replace '':'' [] (w @ '':'') = w"
    by simp
  show ?thesis
    unfolding makeScene_def inline tokens
    by (simp add: element_def colon)
qed

text \<open>
  On a declaration that ends with its colon the extraction is the one of
  \<^const>\<open>getParameter\<close>: for a label \<open>l\<close> and a parameter \<open>p\<close> without white space, colon or
  angle bracket, the line \<^verbatim>\<open>scene l<p>:\<close> yields the scene with label \<open>l\<close> and condition \<open>p\<close>,
  and the line \<^verbatim>\<open>scene l:\<close> yields the scene with label \<open>l\<close> and no condition.
\<close>

lemma makeScene_extracts_parameter:
  assumes "\<forall>c\<in>set (l @ p). \<not> isWhiteSpace c \<and> c \<noteq> CHR '':'' \<and> c \<noteq> CHR ''<'' \<and> c \<noteq> CHR ''>''"
  shows "makeScene (''scene '' @ l @ ''<'' @ p @ ''>:'') =
           Inr \<lparr>label = l, nextScene = None, previousScene = None, isEndingScene = False,
                dialogues = [], choices = None, condition = Some p\<rparr>"
    and "makeScene (''scene '' @ l @ '':'') =
           Inr \<lparr>label = l, nextScene = None, previousScene = None, isEndingScene = False,
                dialogues = [], choices = None, condition = None\<rparr>"
proof -
  from assms have brackets: "CHR ''<'' \<notin> set l" "CHR ''>'' \<notin> set l" "CHR ''>'' \<notin> set p"
    by auto
  have "\<forall>c\<in>set (l @ ''<'' @ p @ ''>''). \<not> isWhiteSpace c \<and> c \<noteq> CHR '':''"
    using assms by (auto simp: isWhiteSpace_def)
  from makeScene_token [OF this] getParameter_split [OF brackets, of "[]"]
  show "makeScene (''scene '' @ l @ ''<'' @ p @ ''>:'') =
        Inr \<lparr>label = l, nextScene = None, previousScene = None, isEndingScene = False,
             dialogues = [], choices = None, condition = Some p\<rparr>"
    by simp
  have "\<forall>c\<in>set l. \<not> isWhiteSpace c \<and> c \<noteq> CHR '':''"
    using assms by auto
  from makeScene_token [OF this] getParameter_none [OF brackets(1)]
  show "makeScene (''scene '' @ l @ '':'') =
        Inr \<lparr>label = l, nextScene = None, previousScene = None, isEndingScene = False,
             dialogues = [], choices = None, condition = None\<rparr>"
    by simp
qed

text \<open>
  Claim C3. The claim is that the line \<^verbatim>\<open>scene intro<hasKey>\<close> is parsed to a scene with label
  \<^verbatim>\<open>intro\<close> and condition \<^verbatim>\<open>hasKey\<close>, and the line \<^verbatim>\<open>scene intro\<close> to a scene with label
  \<^verbatim>\<open>intro\<close> and no condition. The extraction does that on the two tokens: \<^const>\<open>getParameter\<close>
  splits \<^verbatim>\<open>intro<hasKey>\<close> into \<^verbatim>\<open>intro\<close> and \<^verbatim>\<open>hasKey\<close>, and gives back \<^verbatim>\<open>intro\<close> with no
  parameter. The parse of the two lines never gets there: each is recognised as a scene
  declaration, and \<^const>\<open>hasForbiddenInline\<close>, reached first, calls \<^verbatim>\<open>trim\<close> on the second
  segment of a line that has no colon, which is \<^verbatim>\<open>undefined\<close>. Its doc comment promises
  \<^verbatim>\<open>false\<close> for a line without inline text, and \<^verbatim>\<open>addEmotion\<close> tests its own second segment
  before it uses it; here the \<^const>\<open>TypeError\<close> ends the parse with no scene.
\<close>

theorem parameter_extraction_failing_input:
  "getParameter ''intro<hasKey>'' = (''intro'', Some ''hasKey'') \<and>
   getParameter ''intro'' = (''intro'', None) \<and>
   hasKeyword Scene ''scene intro<hasKey>'' 0 \<and>
   hasForbiddenInline ''scene intro<hasKey>'' = Inl TypeError \<and>
   makeScene ''scene intro<hasKey>'' = Inl TypeError \<and>
   main ''scene intro<hasKey>'' = Inl TypeError \<and>
   hasKeyword Scene ''scene intro'' 0 \<and>
   hasForbiddenInline ''scene intro'' = Inl TypeError \<and>
   makeScene ''scene intro'' = Inl TypeError \<and>
   main ''scene intro'' = Inl TypeError"
proof -
  have p1: "getParameter ''intro<hasKey>'' = (''intro'', Some ''hasKey'')" by code_simp
  have p2: "getParameter ''intro'' = (''intro'', None)" by code_simp
  have k1: "hasKeyword Scene ''scene intro<hasKey>'' 0" by code_simp
  have k2: "hasKeyword Scene ''scene intro'' 0" by code_simp
  have f1: "hasForbiddenInline ''scene intro<hasKey>'' = Inl TypeError" by code_simp
  have f2: "hasForbiddenInline ''scene intro'' = Inl TypeError" by code_simp
  have s1: "makeScene ''scene intro<hasKey>'' = Inl TypeError" by code_simp
  have s2: "makeScene ''scene intro'' = Inl TypeError" by code_simp
  have "map_sum id scenes (main ''scene intro<hasKey>'') = Inl TypeError" by code_simp
  then have m1: "main ''scene intro<hasKey>'' = Inl TypeError"
    by (cases "main ''scene intro<hasKey>''") simp_all
  have "map_sum id scenes (main ''scene intro'') = Inl TypeError" by code_simp
  then have m2: "main ''scene intro'' = Inl TypeError"
    by (cases "main ''scene intro''") simp_all
  from p1 p2 k1 k2 f1 f2 s1 s2 m1 m2 show ?thesis by blast
qed

section \<open>Choice lines\<close>



lemma trim_leading_white:
  "\<forall>c\<in>set ws. isWhiteSpace c \<Longrightarrow> trim (ws @ s) = trim s"
  by (simp add: trim_def dropWhile_append)



lemma addChoice_wellformed:
  assumes "CHR '':'' \<notin> set instr" and "CHR '':'' \<notin> set seg"
    and "after = [] \<or> (\<exists>r. after = '':'' @ r)"
    and "snd (getParameter instr) = Some t" and "t \<noteq> []"
  shows "addChoice (instr @ '':'' @ seg @ after) (Some s) =
           Inr (s\<lparr>choices :=
                  Some ((case choices s of None \<Rightarrow> [] | Some cs \<Rightarrow> cs) @
                        [\<lparr>Choice.label = trim seg, targetScene = t\<rparr>])\<rparr>)"
proof -
  have "element (js_split CHR '':'' (instr @ CHR '':'' # seg @ after)) 0 = Some instr \<and>
        element (js_split CHR '':'' (instr @ CHR '':'' # seg @ after)) (Suc 0) = Some seg"
    using assms(1,2,3) by (intro js_split_segments) auto
  then show ?thesis
    using assms(4,5) by (simp add: addChoice_def split: option.split)
qed

section \<open>Indentation\<close>




section \<open>Decomposition of a choice line\<close>

lemma addChoice_missing_target:
  assumes "CHR '':'' \<notin> set instr" and "after = [] \<or> (\<exists>r. after = '':'' @ r)"
    and "CHR ''<'' \<notin> set instr \<or>
         (\<exists>front back. instr = front @ ''<>'' @ back \<and> CHR ''<'' \<notin> set front \<and>
            CHR ''>'' \<notin> set front)"
  shows "addChoice (instr @ after) (Some s) = Inl ChoiceMissingTarget"
proof -
  have first: "element (js_split CHR '':'' (instr @ after)) 0 = Some instr"
    using assms(1,2)
    by (auto simp: js_split_no_separator js_split_first_separator element_def)
  from assms(3) have "snd (getParameter instr) = None \<or> snd (getParameter instr) = Some []"
  proof
    assume "CHR ''<'' \<notin> set instr"
    then show ?thesis
      by (simp add: getParameter_none)
  next
    assume "\<exists>front back. instr = front @ ''<>'' @ back \<and> CHR ''<'' \<notin> set front \<and>
        CHR ''>'' \<notin> set front"
    then obtain fr bk where i: "instr = fr @ ''<'' @ [] @ ''>'' @ bk"
      and f: "CHR ''<'' \<notin> set fr" "CHR ''>'' \<notin> set fr"
      by auto
    have "getParameter (fr @ ''<'' @ [] @ ''>'' @ bk) = (fr @ bk, Some [])"
      using f by (intro getParameter_split) simp_all
    then have "snd (getParameter instr) = Some []"
      by (simp only: i snd_conv)
    then show ?thesis ..
  qed
  with first show ?thesis
    by (auto simp: addChoice_def)
qed

text \<open>
  Claim C7, as the code has it. Let \<open>line\<close> be recognised as a choice while the scene \<open>s\<close>
  is open. \<^verbatim>\<open>line.split(":")\<close> separates at every colon: the instruction is the first
  segment, the text before the first colon, and the label is the second, the text between
  the first colon and the next one, or the end of the line when there is no second colon.
  When the line has a colon and its instruction is \<^verbatim>\<open>front<t>back\<close>, where \<open>front\<close> has no
  angle bracket, \<open>t\<close> is not empty and has no \<^verbatim>\<open>>\<close>, the choice with target \<open>t\<close> and the
  trimmed second segment as its label is appended to the choices of \<open>s\<close>. When the
  instruction has no \<^verbatim>\<open><\<close>, or is \<^verbatim>\<open>front<>back\<close> with no angle bracket in \<open>front\<close>, the step
  fails with \<^const>\<open>ChoiceMissingTarget\<close>, and so does the parse.
\<close>

theorem choice_decomposition:
  assumes "hasKeyword Choice line 1"
    and "currentScene st = Some s"
  shows "(line = instr @ '':'' @ seg @ after \<and> CHR '':'' \<notin> set instr \<and> CHR '':'' \<notin> set seg \<and>
          (after = [] \<or> (\<exists>r. after = '':'' @ r)) \<and>
          instr = front @ ''<'' @ t @ ''>'' @ back \<and> CHR ''<'' \<notin> set front \<and>
          CHR ''>'' \<notin> set front \<and> CHR ''>'' \<notin> set t \<and> t \<noteq> [] \<longrightarrow>
            processLine st line =
              Inr (st\<lparr>currentScene :=
                        Some (s\<lparr>choices :=
                                  Some ((case choices s of None \<Rightarrow> [] | Some cs \<Rightarrow> cs) @
                                        [\<lparr>Choice.label = trim seg, targetScene = t\<rparr>])\<rparr>)\<rparr>)) \<and>
         (line = instr @ after \<and> CHR '':'' \<notin> set instr \<and> (after = [] \<or> (\<exists>r. after = '':'' @ r)) \<and>
          (CHR ''<'' \<notin> set instr \<or>
           (\<exists>front back. instr = front @ ''<>'' @ back \<and> CHR ''<'' \<notin> set front \<and>
              CHR ''>'' \<notin> set front)) \<longrightarrow>
            processLine st line = Inl ChoiceMissingTarget \<and>
            (getLines script = before @ line # rest \<and> processLines initialState before = Inr st \<longrightarrow>
               main script = Inl ChoiceMissingTarget))"
proof -
  have step: "processLine st line =
      (case addChoice line (Some s) of Inl e \<Rightarrow> Inl e | Inr s' \<Rightarrow> Inr (st\<lparr>currentScene := Some s'\<rparr>))"
    using assms by (simp add: processLine_Choice)
  have abort: "main script = Inl e"
    if "processLine st line = Inl e" "getLines script = before @ line # rest"
      "processLines initialState before = Inr st" for e
    using that by (simp add: main_abort processLines_abort)
  have good: "processLine st line =
      Inr (st\<lparr>currentScene :=
                Some (s\<lparr>choices :=
                          Some ((case choices s of None \<Rightarrow> [] | Some cs \<Rightarrow> cs) @
                                [\<lparr>Choice.label = trim seg, targetScene = t\<rparr>])\<rparr>)\<rparr>)"
    if l: "line = instr @ '':'' @ seg @ after" and c: "CHR '':'' \<notin> set instr" "CHR '':'' \<notin> set seg"
        "after = [] \<or> (\<exists>r. after = '':'' @ r)"
      and i: "instr = front @ ''<'' @ t @ ''>'' @ back"
      and p: "CHR ''<'' \<notin> set front" "CHR ''>'' \<notin> set front" "CHR ''>'' \<notin> set t" and t: "t \<noteq> []"
  proof -
    have "snd (getParameter instr) = Some t"
      unfolding i by (simp only: getParameter_split [OF p] snd_conv)
    from addChoice_wellformed [OF c this t, of s]
    have "addChoice line (Some s) =
        Inr (s\<lparr>choices :=
                Some ((case choices s of None \<Rightarrow> [] | Some cs \<Rightarrow> cs) @
                      [\<lparr>Choice.label = trim seg, targetScene = t\<rparr>])\<rparr>)"
      by (simp only: l)
    then show ?thesis
      by (simp add: step)
  qed
  have missing: "processLine st line = Inl ChoiceMissingTarget"
    if l: "line = instr @ after" and c: "CHR '':'' \<notin> set instr" "after = [] \<or> (\<exists>r. after = '':'' @ r)"
      and m: "CHR ''<'' \<notin> set instr \<or>
           (\<exists>front back. instr = front @ ''<>'' @ back \<and> CHR ''<'' \<notin> set front \<and>
              CHR ''>'' \<notin> set front)"
  proof -
    from addChoice_missing_target [OF c m, of s]
    have "addChoice line (Some s) = Inl ChoiceMissingTarget"
      by (simp only: l)
    then show ?thesis
      by (simp add: step)
  qed
  from good missing abort show ?thesis
    by blast
qed

theorem choice_decomposition_witness:
  "hasKeyword Choice ''    choice<C>: go: there'' 1 \<and>
   processLine
     \<lparr>scenes = [], characters = [],
      currentScene = Some \<lparr>label = ''A'', nextScene = None, previousScene = None,
        isEndingScene = False, dialogues = [], choices = None, condition = None\<rparr>,
      currentCharacter = None\<rparr> ''    choice<C>: go: there'' =
     Inr \<lparr>scenes = [], characters = [],
      currentScene = Some \<lparr>label = ''A'', nextScene = None, previousScene = None,
        isEndingScene = False, dialogues = [],
        choices = Some [\<lparr>Choice.label = ''go'', targetScene = ''C''\<rparr>], condition = None\<rparr>,
      currentCharacter = None\<rparr> \<and>
   hasKeyword Choice ''    choice: go'' 1 \<and>
   main (''scene A:'' @ [CHR 0x0A] @ ''    choice: go'') = Inl ChoiceMissingTarget \<and>
   hasKeyword Choice ''    choice<>: go'' 1 \<and>
   main (''scene A:'' @ [CHR 0x0A] @ ''    choice<>: go'') = Inl ChoiceMissingTarget"
proof -
  let ?s = "\<lparr>label = ''A'', nextScene = None, previousScene = None,
        isEndingScene = False, dialogues = [], choices = None, condition = None\<rparr>"
  let ?st = "\<lparr>scenes = [], characters = [], currentScene = Some ?s, currentCharacter = None\<rparr>"
  have open_st: "currentScene ?st = Some ?s" by simp
  have "case processLines initialState [''scene A:''] of
          Inl e \<Rightarrow> False
        | Inr st \<Rightarrow> currentScene st = Some ?s"
    by code_simp
  then obtain st where st: "processLines initialState [''scene A:''] = Inr st"
      "currentScene st = Some ?s"
    by (auto split: sum.splits)
  \<comment> \<open>a label with a second colon\<close>
  have k1: "hasKeyword Choice ''    choice<C>: go: there'' 1" by code_simp
  have tr: "trim '' go'' = ''go''" by code_simp
  from choice_decomposition [OF k1 open_st,
      of "''    choice<C>''" "'' go''" "'': there''" "''    choice''" "''C''" "[]"]
  have r1: "processLine ?st ''    choice<C>: go: there'' =
      Inr (?st\<lparr>currentScene :=
                Some (?s\<lparr>choices := Some [\<lparr>Choice.label = ''go'', targetScene = ''C''\<rparr>]\<rparr>)\<rparr>)"
    by (simp add: tr)
  \<comment> \<open>no parameter\<close>
  have k2: "hasKeyword Choice ''    choice: go'' 1" by code_simp
  have g2: "getLines (''scene A:'' @ [CHR 0x0A] @ ''    choice: go'') =
      [''scene A:''] @ ''    choice: go'' # []" by code_simp
  from choice_decomposition [OF k2 st(2),
      of "''    choice''" "[]" "'': go''" "[]" "[]" "[]"
         "''scene A:'' @ [CHR 0x0A] @ ''    choice: go''" "[''scene A:'']" "[]"] g2 st(1)
  have r2: "main (''scene A:'' @ [CHR 0x0A] @ ''    choice: go'') = Inl ChoiceMissingTarget"
    by simp
  \<comment> \<open>an empty parameter\<close>
  have k3: "hasKeyword Choice ''    choice<>: go'' 1" by code_simp
  have g3: "getLines (''scene A:'' @ [CHR 0x0A] @ ''    choice<>: go'') =
      [''scene A:''] @ ''    choice<>: go'' # []" by code_simp
  have "''    choice<>'' = ''    choice'' @ ''<>'' @ [] \<and> CHR ''<'' \<notin> set ''    choice'' \<and>
      CHR ''>'' \<notin> set ''    choice''"
    by simp
  then have e3: "\<exists>front back. ''    choice<>'' = front @ ''<>'' @ back \<and> CHR ''<'' \<notin> set front \<and>
      CHR ''>'' \<notin> set front"
    by blast
  from choice_decomposition [OF k3 st(2),
      of "''    choice<>''" "[]" "'': go''" "[]" "[]" "[]"
         "''scene A:'' @ [CHR 0x0A] @ ''    choice<>: go''" "[''scene A:'']" "[]"] g3 st(1) e3
  have r3: "main (''scene A:'' @ [CHR 0x0A] @ ''    choice<>: go'') = Inl ChoiceMissingTarget"
    by simp
  from k1 r1 k2 r2 k3 r3 show ?thesis
    by simp
qed

text \<open>
  A choice line whose label has a colon: all the text after the first colon, trimmed, is
  \<^verbatim>\<open>go: there\<close>, and the label of the choice that the parse returns is \<^verbatim>\<open>go\<close>. A choice line
  whose instruction has a \<^verbatim>\<open><\<close> and no \<^verbatim>\<open>>\<close> has no \<^verbatim>\<open><target>\<close> parameter, and yet the parse
  does not fail: the text up to the \<^verbatim>\<open><\<close> is the target. With a \<^verbatim>\<open>>\<close> before the \<^verbatim>\<open><\<close>, the
  target is the text between the two, not the parameter.
\<close>

theorem choice_decomposition_counterexample:
  "hasKeyword Choice ''    choice<C>: go: there'' 1 \<and>
   trim '' go: there'' = ''go: there'' \<and>
   map_sum id (map choices \<circ> scenes)
     (main (''scene A:'' @ [CHR 0x0A] @ ''    choice<C>: go: there'')) =
     Inr [Some [\<lparr>Choice.label = ''go'', targetScene = ''C''\<rparr>]] \<and>
   hasKeyword Choice ''    choice<C: go'' 1 \<and>
   map_sum id (map choices \<circ> scenes)
     (main (''scene A:'' @ [CHR 0x0A] @ ''    choice<C: go'')) =
     Inr [Some [\<lparr>Choice.label = ''go'', targetScene = ''    choice<''\<rparr>]] \<and>
   hasKeyword Choice ''    choice>x<C>: go'' 1 \<and>
   map_sum id (map choices \<circ> scenes)
     (main (''scene A:'' @ [CHR 0x0A] @ ''    choice>x<C>: go'')) =
     Inr [Some [\<lparr>Choice.label = ''go'', targetScene = ''>x<''\<rparr>]]"
proof -
  have "hasKeyword Choice ''    choice<C>: go: there'' 1" by code_simp
  moreover have "trim '' go: there'' = ''go: there''" by code_simp
  moreover have "map_sum id (map choices \<circ> scenes)
     (main (''scene A:'' @ [CHR 0x0A] @ ''    choice<C>: go: there'')) =
     Inr [Some [\<lparr>Choice.label = ''go'', targetScene = ''C''\<rparr>]]"
    by code_simp
  moreover have "hasKeyword Choice ''    choice<C: go'' 1" by code_simp
  moreover have "map_sum id (map choices \<circ> scenes)
     (main (''scene A:'' @ [CHR 0x0A] @ ''    choice<C: go'')) =
     Inr [Some [\<lparr>Choice.label = ''go'', targetScene = ''    choice<''\<rparr>]]"
    by code_simp
  moreover have "hasKeyword Choice ''    choice>x<C>: go'' 1" by code_simp
  moreover have "map_sum id (map choices \<circ> scenes)
     (main (''scene A:'' @ [CHR 0x0A] @ ''    choice>x<C>: go'')) =
     Inr [Some [\<lparr>Choice.label = ''go'', targetScene = ''>x<''\<rparr>]]"
    by code_simp
  ultimately show ?thesis by blast
qed

section \<open>Decomposition of an emotion line\<close>

lemma addEmotion_wellformed:
  assumes "CHR '':'' \<notin> set instr" and "CHR '':'' \<notin> set seg"
    and "after = [] \<or> (\<exists>r. after = '':'' @ r)" and "seg \<noteq> []"
  shows "addEmotion (instr @ '':'' @ seg @ after) (Some c) =
           Inr (c\<lparr>emotions :=
                  setProperty (emotions c)
                    (propertyKey (element (js_split CHR '' '' (removeExtraSpaces instr)) 1))
                    (trim seg)\<rparr>)"
proof -
  have "element (js_split CHR '':'' (instr @ CHR '':'' # seg @ after)) 0 = Some instr \<and>
        element (js_split CHR '':'' (instr @ CHR '':'' # seg @ after)) (Suc 0) = Some seg"
    using assms(1,2,3) by (intro js_split_segments) auto
  then show ?thesis
    using assms(4) by (simp add: addEmotion_def)
qed

lemma addEmotion_empty_path:
  assumes "CHR '':'' \<notin> set instr" and "after = [] \<or> (\<exists>r. after = '':'' @ r)"
  shows "addEmotion (instr @ '':'' @ after) (Some c) = Inl EmotionMissingPath"
proof -
  have "element (js_split CHR '':'' (instr @ CHR '':'' # [] @ after)) 0 = Some instr \<and>
        element (js_split CHR '':'' (instr @ CHR '':'' # [] @ after)) (Suc 0) = Some []"
    using assms by (intro js_split_segments) auto
  then show ?thesis
    by (simp add: addEmotion_def)
qed

lemma emotion_name_token:
  assumes "nm \<noteq> []" and "\<forall>ch\<in>set nm. \<not> isWhiteSpace ch"
  shows "element (js_split CHR '' '' (removeExtraSpaces (''    emotion '' @ nm))) 1 = Some nm"
proof -
  have d: "dropWhile isWhiteSpace nm = nm"
    using assms by (cases nm) auto
  have "collapseWhiteSpace (''    emotion '' @ nm) = '' emotion '' @ nm"
    using assms(2) by (simp add: isWhiteSpace_def d collapseWhiteSpace_no_white)
  moreover have "trim ('' '' @ (''emotion '' @ nm)) = trim (''emotion '' @ nm)"
    by (rule trim_leading_white) (simp add: isWhiteSpace_def)
  moreover have "trim (''emotion '' @ nm) = ''emotion '' @ nm"
    using assms by (intro trim_no_white_ends) (simp_all add: isWhiteSpace_def)
  ultimately have "removeExtraSpaces (''    emotion '' @ nm) = ''emotion'' @ CHR '' '' # nm"
    by (simp add: removeExtraSpaces_def)
  moreover have "CHR '' '' \<notin> set nm"
    using assms(2) by (auto simp: isWhiteSpace_def)
  then have "js_split CHR '' '' (''emotion'' @ CHR '' '' # nm) = [''emotion'', nm]"
    by (simp add: js_split_first_separator js_split_no_separator)
  ultimately show ?thesis
    by (simp add: element_def)
qed

lemma setProperty_lookup:
  "key \<noteq> ''__proto__'' \<Longrightarrow>
   setProperty obj key v key = Some v \<and> (\<forall>k. k \<noteq> key \<longrightarrow> setProperty obj key v k = obj k)"
  by (simp add: setProperty_def)

text \<open>
  Claim C8, as the code has it. Let \<open>line\<close> be recognised as an emotion while the
  character \<open>c\<close> is open. \<^verbatim>\<open>line.split(":")\<close> separates at every colon: the instruction is the
  first segment and the path is the second, the text between the first colon and the next
  one, or the end of the line when there is no second colon. When the path is not empty,
  the step assigns the trimmed path to the property of the emotions named by the second
  token of the normalised instruction (the key \<^verbatim>\<open>undefined\<close> when there is no second
  token): the emotions then hold the trimmed path under that key and are unchanged under
  every other key, unless the key is \<^verbatim>\<open>__proto__\<close>, which stores nothing. For an instruction
  \<^verbatim>\<open>emotion name\<close> behind four spaces the second token is the name. When the path is empty
  or the line has no colon, the step fails with \<^const>\<open>EmotionMissingPath\<close>, and so does the
  parse.
\<close>

theorem emotion_decomposition:
  assumes "hasKeyword Emotion line 1"
    and "currentCharacter st = Some c"
  shows "(line = instr @ '':'' @ seg @ after \<and> CHR '':'' \<notin> set instr \<and> CHR '':'' \<notin> set seg \<and>
          (after = [] \<or> (\<exists>r. after = '':'' @ r)) \<and> seg \<noteq> [] \<and>
          key = propertyKey (element (js_split CHR '' '' (removeExtraSpaces instr)) 1) \<longrightarrow>
            processLine st line =
              Inr (st\<lparr>currentCharacter :=
                        Some (c\<lparr>emotions := setProperty (emotions c) key (trim seg)\<rparr>)\<rparr>) \<and>
            (key \<noteq> ''__proto__'' \<longrightarrow>
               setProperty (emotions c) key (trim seg) key = Some (trim seg) \<and>
               (\<forall>k. k \<noteq> key \<longrightarrow> setProperty (emotions c) key (trim seg) k = emotions c k))) \<and>
         (nm \<noteq> [] \<and> (\<forall>ch\<in>set nm. \<not> isWhiteSpace ch) \<longrightarrow>
            propertyKey (element (js_split CHR '' '' (removeExtraSpaces (''    emotion '' @ nm))) 1) =
              nm) \<and>
         ((line = instr @ '':'' @ after \<and> CHR '':'' \<notin> set instr \<and>
           (after = [] \<or> (\<exists>r. after = '':'' @ r))) \<or> CHR '':'' \<notin> set line \<longrightarrow>
            processLine st line = Inl EmotionMissingPath \<and>
            (getLines script = before @ line # rest \<and> processLines initialState before = Inr st \<longrightarrow>
               main script = Inl EmotionMissingPath))"
proof -
  have step: "processLine st line =
      (case addEmotion line (Some c) of
         Inl e \<Rightarrow> Inl e
       | Inr c' \<Rightarrow> Inr (st\<lparr>currentCharacter := Some c'\<rparr>))"
    using assms by (simp add: processLine_Emotion)
  have good: "processLine st line =
      Inr (st\<lparr>currentCharacter :=
                Some (c\<lparr>emotions := setProperty (emotions c) key (trim seg)\<rparr>)\<rparr>)"
    if l: "line = instr @ '':'' @ seg @ after"
      and s: "CHR '':'' \<notin> set instr" "CHR '':'' \<notin> set seg" "after = [] \<or> (\<exists>r. after = '':'' @ r)"
        "seg \<noteq> []"
      and k: "key = propertyKey (element (js_split CHR '' '' (removeExtraSpaces instr)) 1)"
  proof -
    from addEmotion_wellformed [OF s, of c]
    have "addEmotion line (Some c) =
        Inr (c\<lparr>emotions := setProperty (emotions c) key (trim seg)\<rparr>)"
      by (simp only: l k)
    then show ?thesis
      by (simp add: step)
  qed
  have token: "propertyKey (element (js_split CHR '' '' (removeExtraSpaces (''    emotion '' @ nm))) 1) = nm"
    if "nm \<noteq> []" "\<forall>ch\<in>set nm. \<not> isWhiteSpace ch"
    using emotion_name_token [OF that] by (simp add: propertyKey_def)
  have bad: "processLine st line = Inl EmotionMissingPath"
    if "(line = instr @ '':'' @ after \<and> CHR '':'' \<notin> set instr \<and>
           (after = [] \<or> (\<exists>r. after = '':'' @ r))) \<or> CHR '':'' \<notin> set line"
    using that
  proof
    assume a: "line = instr @ '':'' @ after \<and> CHR '':'' \<notin> set instr \<and>
           (after = [] \<or> (\<exists>r. after = '':'' @ r))"
    then have "addEmotion (instr @ '':'' @ after) (Some c) = Inl EmotionMissingPath"
      by (intro addEmotion_empty_path) simp_all
    with a have "addEmotion line (Some c) = Inl EmotionMissingPath"
      by (simp only:)
    then show ?thesis
      by (simp add: step)
  next
    assume "CHR '':'' \<notin> set line"
    then have "addEmotion line (Some c) = Inl EmotionMissingPath"
      by (intro addEmotion_missing_path) simp
    then show ?thesis
      by (simp add: step)
  qed
  have abort: "main script = Inl e"
    if "processLine st line = Inl e" "getLines script = before @ line # rest"
      "processLines initialState before = Inr st" for e
    using that by (simp add: main_abort processLines_abort)
  from good token bad abort setProperty_lookup [of key "emotions c" "trim seg"] show ?thesis
    by blast
qed

theorem emotion_decomposition_witness:
  "hasKeyword Emotion ''    emotion happy: img:happy.png'' 1 \<and>
   (\<exists>c'. processLine
            \<lparr>scenes = [], characters = [], currentScene = None,
             currentCharacter = Some \<lparr>name = ''bob'', emotions = Map.empty\<rparr>\<rparr>
            ''    emotion happy: img:happy.png'' =
          Inr \<lparr>scenes = [], characters = [], currentScene = None,
               currentCharacter = Some c'\<rparr> \<and>
          name c' = ''bob'' \<and> emotions c' ''happy'' = Some ''img'' \<and>
          emotions c' ''sad'' = None) \<and>
   hasKeyword Emotion ''    emotion happy:'' 1 \<and>
   main (''character bob:'' @ [CHR 0x0A] @ ''    emotion happy:'') = Inl EmotionMissingPath"
proof -
  let ?c = "\<lparr>name = ''bob'', emotions = Map.empty\<rparr>"
  let ?st = "\<lparr>scenes = [], characters = [], currentScene = None, currentCharacter = Some ?c\<rparr>"
  have open_st: "currentCharacter ?st = Some ?c" by simp
  \<comment> \<open>a path with a second colon\<close>
  have k1: "hasKeyword Emotion ''    emotion happy: img:happy.png'' 1" by code_simp
  have tr: "trim '' img'' = ''img''" by code_simp
  have white: "\<forall>ch\<in>set ''happy''. \<not> isWhiteSpace ch"
    by (simp add: isWhiteSpace_def)
  from emotion_decomposition [OF k1 open_st,
      of "''    emotion happy''" "'' img''" "'':happy.png''" "''happy''" "''happy''"] white
  have r1: "processLine ?st ''    emotion happy: img:happy.png'' =
      Inr (?st\<lparr>currentCharacter :=
                Some (?c\<lparr>emotions := setProperty Map.empty ''happy'' ''img''\<rparr>)\<rparr>)"
    and l1: "setProperty Map.empty ''happy'' ''img'' ''happy'' = Some ''img''"
    and o1: "setProperty Map.empty ''happy'' ''img'' ''sad'' = None"
    by (simp_all add: tr)
  \<comment> \<open>no path\<close>
  have k2: "hasKeyword Emotion ''    emotion happy:'' 1" by code_simp
  have g2: "getLines (''character bob:'' @ [CHR 0x0A] @ ''    emotion happy:'') =
      [''character bob:''] @ ''    emotion happy:'' # []" by code_simp
  have "case processLines initialState [''character bob:''] of
          Inl e \<Rightarrow> False
        | Inr s \<Rightarrow> (case currentCharacter s of None \<Rightarrow> False | Some c \<Rightarrow> True)"
    by code_simp
  then obtain s c where s: "processLines initialState [''character bob:''] = Inr s"
      "currentCharacter s = Some c"
    by (auto split: sum.splits option.splits)
  from emotion_decomposition [OF k2 s(2),
      of "''    emotion happy''" "[]" "[]" "[]" "[]"
         "''character bob:'' @ [CHR 0x0A] @ ''    emotion happy:''" "[''character bob:'']" "[]"]
    g2 s(1)
  have r2: "main (''character bob:'' @ [CHR 0x0A] @ ''    emotion happy:'') = Inl EmotionMissingPath"
    by simp
  from r1 l1 o1 have "\<exists>c'. processLine ?st ''    emotion happy: img:happy.png'' =
          Inr \<lparr>scenes = [], characters = [], currentScene = None, currentCharacter = Some c'\<rparr> \<and>
          name c' = ''bob'' \<and> emotions c' ''happy'' = Some ''img'' \<and> emotions c' ''sad'' = None"
    by (intro exI [of _ "?c\<lparr>emotions := setProperty Map.empty ''happy'' ''img''\<rparr>"]) simp
  with k1 k2 r2 show ?thesis
    by blast
qed

text \<open>
  An emotion line whose path has a colon: all the text after the first colon, trimmed, is
  \<^verbatim>\<open>img:happy.png\<close>, and the path that the parse stores for the emotion is \<^verbatim>\<open>img\<close>.
\<close>

theorem emotion_decomposition_counterexample:
  "hasKeyword Emotion ''    emotion happy: img:happy.png'' 1 \<and>
   trim '' img:happy.png'' = ''img:happy.png'' \<and>
   \<not> isl (main (''character bob:'' @ [CHR 0x0A] @ ''    emotion happy: img:happy.png'')) \<and>
   length (characters (projr
     (main (''character bob:'' @ [CHR 0x0A] @ ''    emotion happy: img:happy.png'')))) = 1 \<and>
   emotions (hd (characters (projr
     (main (''character bob:'' @ [CHR 0x0A] @ ''    emotion happy: img:happy.png'')))))
     ''happy'' = Some ''img''"
proof -
  have "hasKeyword Emotion ''    emotion happy: img:happy.png'' 1" by code_simp
  moreover have "trim '' img:happy.png'' = ''img:happy.png''" by code_simp
  moreover have "\<not> isl (main (''character bob:'' @ [CHR 0x0A] @ ''    emotion happy: img:happy.png''))"
    by code_simp
  moreover have "length (characters (projr
     (main (''character bob:'' @ [CHR 0x0A] @ ''    emotion happy: img:happy.png'')))) = 1"
    by code_simp
  moreover have "emotions (hd (characters (projr
     (main (''character bob:'' @ [CHR 0x0A] @ ''    emotion happy: img:happy.png'')))))
     ''happy'' = Some ''img''"
    by code_simp
  ultimately show ?thesis by blast
qed

end
